theory Spec2Isabelle
  imports Main "HOL-Library.Word"
begin

section \<open>CPU feature detection of arch/arm64/kernel/cpufeature.c\<close>

text \<open>
  The file walks a table of capability descriptors three times: at boot to detect the
  capabilities of the boot core (\<open>check_cpu_capabilities\<close>), at boot to enable the
  detected ones on every active core (\<open>enable_cpu_capabilities\<close>) and on a core that
  starts later to verify it against the detected set (\<open>verify_local_cpu_capabilities\<close>).
  Every function is embedded as a function on an explicit kernel state; what the code does
  to the outside (register reads, printk, callbacks) is appended to a log in that state.
\<close>

subsection \<open>Data\<close>

type_synonym u64 = "64 word"
type_synonym u32 = "32 word"
type_synonym c_int = "32 word"

text \<open>
  The registers that \<open>read_cpuid\<close> is applied to in the file: the two of the match
  functions are among the 28 of \<open>__raw_read_system_reg\<close>.
\<close>

datatype sysreg =
    ID_PFR0_EL1 | ID_PFR1_EL1 | ID_DFR0_EL1
  | ID_MMFR0_EL1 | ID_MMFR1_EL1 | ID_MMFR2_EL1 | ID_MMFR3_EL1
  | ID_ISAR0_EL1 | ID_ISAR1_EL1 | ID_ISAR2_EL1 | ID_ISAR3_EL1 | ID_ISAR4_EL1 | ID_ISAR5_EL1
  | MVFR0_EL1 | MVFR1_EL1 | MVFR2_EL1
  | ID_AA64PFR0_EL1 | ID_AA64PFR1_EL1 | ID_AA64DFR0_EL1 | ID_AA64DFR1_EL1
  | ID_AA64MMFR0_EL1 | ID_AA64MMFR1_EL1 | ID_AA64MMFR2_EL1
  | ID_AA64ISAR0_EL1 | ID_AA64ISAR1_EL1
  | CNTFRQ_EL0 | CTR_EL0 | DCZID_EL0

text \<open>
  Function pointers are a closed set of names: the two match functions the file defines,
  and the enable callback its table installs. A null pointer is \<open>None\<close>.
\<close>

datatype matches_fn = PTR_has_id_aa64pfr0_feature | PTR_has_id_aa64mmfr1_feature

datatype enable_fn = PTR_cpu_enable_pan

datatype cpu_die_fn = PTR_cpu_die

text \<open>
  \<open>struct arm64_cpu_capabilities\<close>, with the fields the file uses. A field left out of
  an initialiser is zero: a null pointer, or the number 0.
\<close>

record arm64_cpu_capabilities =
  desc :: "string option"
  capability :: nat
  matches :: "matches_fn option"
  enable :: "enable_fn option"
  sys_reg :: u32
  field_pos :: c_int
  min_field_value :: c_int

text \<open>The empty initialiser \<open>{}\<close> that ends a table.\<close>

definition zero_entry :: arm64_cpu_capabilities where
  "zero_entry = \<lparr>desc = None, capability = 0, matches = None, enable = None,
     sys_reg = 0, field_pos = 0, min_field_value = 0\<rparr>"

record cpu_operations =
  cpu_die :: "cpu_die_fn option"

text \<open>
  What the file takes from headers and the build configuration that are not part of it:
  the numbers of its two capabilities, the \<open>SYS_\<close> identifier of each register
  (\<open>SYS r\<close> is the constant \<open>SYS_r\<close>), the bitfield extraction, and the per-core
  operations table.
\<close>

record config =
  CONFIG_ARM64_PAN :: bool
  ARM64_HAS_SYSREG_GIC_CPUIF :: nat
  ARM64_HAS_PAN :: nat
  SYS :: "sysreg \<Rightarrow> u32"
  cpuid_feature_extract_field :: "u64 \<Rightarrow> c_int \<Rightarrow> c_int"
  cpu_ops :: "nat \<Rightarrow> cpu_operations option"

text \<open>The core that executes: its number and the values of its identification registers.\<close>

record core =
  raw_smp_processor_id :: nat
  sysregs :: "sysreg \<Rightarrow> u64"

datatype event =
    Pr_info string string
  | Pr_crit nat string "string option"
  | Set_cpu_present nat bool
  | Cpu_die nat
  | Read_cpuid sysreg
  | On_each_cpu enable_fn arm64_cpu_capabilities bool
  | Enable_arg enable_fn arm64_cpu_capabilities
  | Enable_noarg enable_fn

record kstate =
  cpu_hwcaps :: "nat set"
  sys_caps_initialised :: bool
  cpu_present_mask :: "nat set"
  klog :: "event list"

text \<open>
  How a function ends: it returns; it never returns because the core waits forever in
  \<open>fail_incapable_cpu\<close>; it hits \<open>BUG()\<close>; it calls through a null pointer; or it
  reads past the last element of the table.
\<close>

datatype outcome = Returned | Parked | Bugged | Null_call | Out_of_bounds

definition emit :: "event \<Rightarrow> kstate \<Rightarrow> kstate" where
  "emit ev st = st\<lparr>klog := klog st @ [ev]\<rparr>"

subsection \<open>Primitives of the surrounding kernel\<close>

text \<open>
  Modelled from the spec: \<open>cpus_have_cap\<close> and \<open>cpus_set_cap\<close> are declared in a
  header that is not part of the sources. The spec gives the Capability Set as a set of
  capability ids with a membership test and an idempotent add.
\<close>

definition cpus_have_cap :: "kstate \<Rightarrow> nat \<Rightarrow> bool" where
  "cpus_have_cap st num = (num \<in> cpu_hwcaps st)"

definition cpus_set_cap :: "nat \<Rightarrow> kstate \<Rightarrow> kstate" where
  "cpus_set_cap num st = st\<lparr>cpu_hwcaps := insert num (cpu_hwcaps st)\<rparr>"

text \<open>
  Modelled from the spec: \<open>set_cpu_present\<close> belongs to the core-management framework.
  The spec gives it as the operation that marks a core present or absent.
\<close>

definition set_cpu_present :: "nat \<Rightarrow> bool \<Rightarrow> kstate \<Rightarrow> kstate" where
  "set_cpu_present cpu present st =
     emit (Set_cpu_present cpu present)
       (st\<lparr>cpu_present_mask :=
          (if present then insert cpu (cpu_present_mask st) else cpu_present_mask st - {cpu})\<rparr>)"

definition pr_info :: "string \<Rightarrow> string \<Rightarrow> kstate \<Rightarrow> kstate" where
  "pr_info info d st = emit (Pr_info info d) st"

definition pr_crit :: "nat \<Rightarrow> string \<Rightarrow> string option \<Rightarrow> kstate \<Rightarrow> kstate" where
  "pr_crit cpu cap_type d st = emit (Pr_crit cpu cap_type d) st"

text \<open>
  \<open>read_cpuid(r)\<close>: the calling core's value of the register, an opaque read. The
  file names the register by a token, \<open>id_aa64pfr0_el1\<close> in the match functions and
  \<open>SYS_ID_AA64PFR0_EL1\<close> in \<open>__raw_read_system_reg\<close>; both are \<open>ID_AA64PFR0_EL1\<close> here.
\<close>

definition read_cpuid :: "core \<Rightarrow> sysreg \<Rightarrow> kstate \<Rightarrow> u64 \<times> kstate" where
  "read_cpuid c r st = (sysregs c r, emit (Read_cpuid r) st)"

subsection \<open>The match functions\<close>

definition feature_matches :: "config \<Rightarrow> u64 \<Rightarrow> arm64_cpu_capabilities \<Rightarrow> bool" where
  "feature_matches cfg reg entry =
     (let val = cpuid_feature_extract_field cfg reg (field_pos entry)
      in min_field_value entry \<le>s val)"

definition has_id_aa64pfr0_feature ::
  "config \<Rightarrow> core \<Rightarrow> arm64_cpu_capabilities \<Rightarrow> kstate \<Rightarrow> bool \<times> kstate" where
  "has_id_aa64pfr0_feature cfg c entry st =
     (case read_cpuid c ID_AA64PFR0_EL1 st of (val, st1) \<Rightarrow> (feature_matches cfg val entry, st1))"

definition has_id_aa64mmfr1_feature ::
  "config \<Rightarrow> core \<Rightarrow> arm64_cpu_capabilities \<Rightarrow> kstate \<Rightarrow> bool \<times> kstate" where
  "has_id_aa64mmfr1_feature cfg c entry st =
     (case read_cpuid c ID_AA64MMFR1_EL1 st of (val, st1) \<Rightarrow> (feature_matches cfg val entry, st1))"

text \<open>A call through \<open>caps[i].matches\<close>.\<close>

fun call_matches ::
  "matches_fn \<Rightarrow> config \<Rightarrow> core \<Rightarrow> arm64_cpu_capabilities \<Rightarrow> kstate \<Rightarrow> bool \<times> kstate" where
  "call_matches PTR_has_id_aa64pfr0_feature = has_id_aa64pfr0_feature"
| "call_matches PTR_has_id_aa64mmfr1_feature = has_id_aa64mmfr1_feature"

subsection \<open>The capability table\<close>

definition arm64_features :: "config \<Rightarrow> arm64_cpu_capabilities list" where
  "arm64_features cfg =
     [\<lparr>desc = Some ''GIC system register CPU interface'',
       capability = ARM64_HAS_SYSREG_GIC_CPUIF cfg,
       matches = Some PTR_has_id_aa64pfr0_feature,
       enable = None, sys_reg = 0,
       field_pos = 24,
       min_field_value = 1\<rparr>]
     @ (if CONFIG_ARM64_PAN cfg then
        [\<lparr>desc = Some ''Privileged Access Never'',
          capability = ARM64_HAS_PAN cfg,
          matches = Some PTR_has_id_aa64mmfr1_feature,
          enable = Some PTR_cpu_enable_pan, sys_reg = 0,
          field_pos = 20,
          min_field_value = 1\<rparr>]
        else [])
     @ [zero_entry]"

subsection \<open>Boot-time detection and enabling\<close>

text \<open>
  A table is the list of its elements; the loop variable \<open>i\<close> is the position reached in
  the list. The loops stop at the first element whose \<open>desc\<close> (or \<open>matches\<close>) is null.
\<close>

fun check_cpu_capabilities ::
  "config \<Rightarrow> core \<Rightarrow> arm64_cpu_capabilities list \<Rightarrow> string \<Rightarrow> kstate \<Rightarrow> outcome \<times> kstate" where
  "check_cpu_capabilities cfg c [] info st = (Out_of_bounds, st)"
| "check_cpu_capabilities cfg c (e # caps) info st =
     (case desc e of
        None \<Rightarrow> (Returned, st)
      | Some d \<Rightarrow>
          (case matches e of
             None \<Rightarrow> (Null_call, st)
           | Some m \<Rightarrow>
               (case call_matches m cfg c e st of
                  (hit, st1) \<Rightarrow>
                    if \<not> hit then check_cpu_capabilities cfg c caps info st1
                    else check_cpu_capabilities cfg c caps info
                           (cpus_set_cap (capability e)
                              (if \<not> cpus_have_cap st1 (capability e)
                               then pr_info info d st1 else st1)))))"

definition on_each_cpu :: "enable_fn \<Rightarrow> arm64_cpu_capabilities \<Rightarrow> bool \<Rightarrow> kstate \<Rightarrow> kstate" where
  "on_each_cpu f arg wait st = emit (On_each_cpu f arg wait) st"

fun enable_cpu_capabilities ::
  "arm64_cpu_capabilities list \<Rightarrow> kstate \<Rightarrow> outcome \<times> kstate" where
  "enable_cpu_capabilities [] st = (Out_of_bounds, st)"
| "enable_cpu_capabilities (e # caps) st =
     (if matches e = None then (Returned, st)
      else enable_cpu_capabilities caps
             (case enable e of
                Some f \<Rightarrow> if cpus_have_cap st (capability e) then on_each_cpu f e True st else st
              | None \<Rightarrow> st))"

subsection \<open>Verification of a core that starts later\<close>

definition set_sys_caps_initialised :: "kstate \<Rightarrow> kstate" where
  "set_sys_caps_initialised st = st\<lparr>sys_caps_initialised := True\<rparr>"

text \<open>
  The \<open>switch\<close> of \<open>__raw_read_system_reg\<close>, one pair for each \<open>case\<close> in the order of
  the source: the register whose \<open>SYS_\<close> identifier is the label, and the register the
  branch reads.
\<close>

definition raw_read_cases :: "(sysreg \<times> sysreg) list" where
  "raw_read_cases =
     [(ID_PFR0_EL1, ID_PFR0_EL1),
      (ID_PFR1_EL1, ID_PFR1_EL1),
      (ID_DFR0_EL1, ID_DFR0_EL1),
      (ID_MMFR0_EL1, ID_MMFR0_EL1),
      (ID_MMFR1_EL1, ID_MMFR1_EL1),
      (ID_MMFR2_EL1, ID_MMFR2_EL1),
      (ID_MMFR3_EL1, ID_MMFR3_EL1),
      (ID_ISAR0_EL1, ID_ISAR0_EL1),
      (ID_ISAR1_EL1, ID_ISAR1_EL1),
      (ID_ISAR2_EL1, ID_ISAR2_EL1),
      (ID_ISAR3_EL1, ID_ISAR3_EL1),
      (ID_ISAR4_EL1, ID_ISAR4_EL1),
      (ID_ISAR5_EL1, ID_ISAR4_EL1),
      (MVFR0_EL1, MVFR0_EL1),
      (MVFR1_EL1, MVFR1_EL1),
      (MVFR2_EL1, MVFR2_EL1),
      (ID_AA64PFR0_EL1, ID_AA64PFR0_EL1),
      (ID_AA64PFR1_EL1, ID_AA64PFR0_EL1),
      (ID_AA64DFR0_EL1, ID_AA64DFR0_EL1),
      (ID_AA64DFR1_EL1, ID_AA64DFR0_EL1),
      (ID_AA64MMFR0_EL1, ID_AA64MMFR0_EL1),
      (ID_AA64MMFR1_EL1, ID_AA64MMFR1_EL1),
      (ID_AA64MMFR2_EL1, ID_AA64MMFR2_EL1),
      (ID_AA64ISAR0_EL1, ID_AA64ISAR0_EL1),
      (ID_AA64ISAR1_EL1, ID_AA64ISAR1_EL1),
      (CNTFRQ_EL0, CNTFRQ_EL0),
      (CTR_EL0, CTR_EL0),
      (DCZID_EL0, DCZID_EL0)]"

text \<open>The branch a \<open>sys_id\<close> selects: the first \<open>case\<close> whose label equals it.\<close>

fun switch_on :: "config \<Rightarrow> u32 \<Rightarrow> (sysreg \<times> sysreg) list \<Rightarrow> sysreg option" where
  "switch_on cfg sys_id [] = None"
| "switch_on cfg sys_id ((label, r) # cases) =
     (if sys_id = SYS cfg label then Some r else switch_on cfg sys_id cases)"

definition raw_read_system_reg :: "config \<Rightarrow> core \<Rightarrow> u32 \<Rightarrow> kstate \<Rightarrow> (outcome + u64) \<times> kstate" where
  "raw_read_system_reg cfg c sys_id st =
     (case switch_on cfg sys_id raw_read_cases of
        Some r \<Rightarrow> (case read_cpuid c r st of (val, st1) \<Rightarrow> (Inr val, st1))
      | None \<Rightarrow> (Inl Bugged, st))"

text \<open>
  \<open>fail_incapable_cpu\<close> ends in a loop of \<open>wfe\<close> and \<open>wfi\<close> without an exit, so it
  never returns. Its value is the state in which the core enters that loop.
\<close>

definition fail_incapable_cpu ::
  "config \<Rightarrow> core \<Rightarrow> string \<Rightarrow> arm64_cpu_capabilities \<Rightarrow> kstate \<Rightarrow> kstate" where
  "fail_incapable_cpu cfg c cap_type cap st =
     (let cpu = raw_smp_processor_id c;
          st1 = pr_crit cpu cap_type (desc cap) st;
          st2 = set_cpu_present cpu False st1
      in case cpu_ops cfg cpu of
           None \<Rightarrow> st2
         | Some ops \<Rightarrow>
             (case cpu_die ops of None \<Rightarrow> st2 | Some f \<Rightarrow> emit (Cpu_die cpu) st2))"

text \<open>The first loop of \<open>verify_local_cpu_capabilities\<close>.\<close>

fun verify_first_pass ::
  "config \<Rightarrow> core \<Rightarrow> arm64_cpu_capabilities list \<Rightarrow> kstate \<Rightarrow> outcome \<times> kstate" where
  "verify_first_pass cfg c [] st = (Out_of_bounds, st)"
| "verify_first_pass cfg c (e # caps) st =
     (if matches e = None then (Returned, st)
      else if \<not> cpus_have_cap st (capability e) \<or> sys_reg e = 0
      then verify_first_pass cfg c caps st
      else
        (case raw_read_system_reg cfg c (sys_reg e) st of
           (Inl stop, st1) \<Rightarrow> (stop, st1)
         | (Inr reg, st1) \<Rightarrow>
             if \<not> feature_matches cfg reg e
             then (Parked, fail_incapable_cpu cfg c ''arm64_features'' e st1)
             else verify_first_pass cfg c caps
                    (case enable e of
                       Some f \<Rightarrow> emit (Enable_arg f e) st1
                     | None \<Rightarrow> st1)))"

text \<open>The second loop, which calls \<open>enable\<close> without an argument.\<close>

fun verify_second_pass ::
  "arm64_cpu_capabilities list \<Rightarrow> kstate \<Rightarrow> outcome \<times> kstate" where
  "verify_second_pass [] st = (Out_of_bounds, st)"
| "verify_second_pass (e # caps) st =
     (case desc e of
        None \<Rightarrow> (Returned, st)
      | Some d \<Rightarrow>
          verify_second_pass caps
            (case enable e of
               Some f \<Rightarrow> if cpus_have_cap st (capability e) then emit (Enable_noarg f) st else st
             | None \<Rightarrow> st))"

text \<open>
  The body of \<open>verify_local_cpu_capabilities\<close> with the table \<open>caps\<close> it walks as an
  argument; the function itself binds \<open>caps\<close> to \<open>arm64_features\<close>.
\<close>

definition verify_capabilities ::
  "config \<Rightarrow> core \<Rightarrow> arm64_cpu_capabilities list \<Rightarrow> kstate \<Rightarrow> outcome \<times> kstate" where
  "verify_capabilities cfg c caps st =
     (if \<not> sys_caps_initialised st then (Returned, st)
      else
        (case verify_first_pass cfg c caps st of
           (Returned, st1) \<Rightarrow> verify_second_pass caps st1
         | (stop, st1) \<Rightarrow> (stop, st1)))"

definition verify_local_cpu_capabilities :: "config \<Rightarrow> core \<Rightarrow> kstate \<Rightarrow> outcome \<times> kstate" where
  "verify_local_cpu_capabilities cfg c st = verify_capabilities cfg c (arm64_features cfg) st"

definition check_local_cpu_features :: "config \<Rightarrow> core \<Rightarrow> kstate \<Rightarrow> outcome \<times> kstate" where
  "check_local_cpu_features cfg c st =
     check_cpu_capabilities cfg c (arm64_features cfg) ''detected feature'' st"

subsection \<open>Sequences of operations\<close>

text \<open>
  The operations the rest of the kernel runs, each on some core. A core that parks does
  not stop the others; after any other abnormal end nothing more is run.
\<close>

datatype operation =
    Op_check "arm64_cpu_capabilities list" string
  | Op_enable "arm64_cpu_capabilities list"
  | Op_set_sys_caps_initialised
  | Op_verify

fun run_operation :: "config \<Rightarrow> core \<Rightarrow> operation \<Rightarrow> kstate \<Rightarrow> outcome \<times> kstate" where
  "run_operation cfg c (Op_check caps info) st = check_cpu_capabilities cfg c caps info st"
| "run_operation cfg c (Op_enable caps) st = enable_cpu_capabilities caps st"
| "run_operation cfg c Op_set_sys_caps_initialised st = (Returned, set_sys_caps_initialised st)"
| "run_operation cfg c Op_verify st = verify_local_cpu_capabilities cfg c st"

fun run_operations :: "config \<Rightarrow> (core \<times> operation) list \<Rightarrow> kstate \<Rightarrow> outcome \<times> kstate" where
  "run_operations cfg [] st = (Returned, st)"
| "run_operations cfg ((c, op) # ops) st =
     (case run_operation cfg c op st of
        (Returned, st1) \<Rightarrow> run_operations cfg ops st1
      | (Parked, st1) \<Rightarrow> run_operations cfg ops st1
      | (stop, st1) \<Rightarrow> (stop, st1))"

fun is_check :: "operation \<Rightarrow> bool" where
  "is_check (Op_check caps info) = True"
| "is_check op = False"

subsection \<open>Notions used in the statements\<close>

text \<open>The identifiers that have a \<open>case\<close> in \<open>__raw_read_system_reg\<close>.\<close>

definition enumerated_ids :: "config \<Rightarrow> u32 set" where
  "enumerated_ids cfg = set (map (\<lambda>(label, r). SYS cfg label) raw_read_cases)"

text \<open>
  An entry the first pass verifies: its capability is in the set \<open>S\<close> and its
  \<open>sys_reg\<close> is set.
\<close>

definition must_verify :: "nat set \<Rightarrow> arm64_cpu_capabilities \<Rightarrow> bool" where
  "must_verify S e = (capability e \<in> S \<and> sys_reg e \<noteq> 0)"

text \<open>
  The result of the local match of an entry on a core: \<open>None\<close> when its \<open>sys_reg\<close>
  has no \<open>case\<close>.
\<close>

definition local_match :: "config \<Rightarrow> core \<Rightarrow> arm64_cpu_capabilities \<Rightarrow> bool option" where
  "local_match cfg c e =
     map_option (\<lambda>r. feature_matches cfg (sysregs c r) e)
       (switch_on cfg (sys_reg e) raw_read_cases)"

definition mismatch :: "config \<Rightarrow> core \<Rightarrow> nat set \<Rightarrow> arm64_cpu_capabilities \<Rightarrow> bool" where
  "mismatch cfg c S e = (must_verify S e \<and> local_match cfg c e = Some False)"

text \<open>What one iteration of the first pass logs for an entry that does not park the core.\<close>

definition first_pass_log :: "config \<Rightarrow> nat set \<Rightarrow> arm64_cpu_capabilities \<Rightarrow> event list" where
  "first_pass_log cfg S e =
     (if must_verify S e
      then (case switch_on cfg (sys_reg e) raw_read_cases of
              Some r \<Rightarrow> [Read_cpuid r] | None \<Rightarrow> [])
           @ (case enable e of Some f \<Rightarrow> [Enable_arg f e] | None \<Rightarrow> [])
      else [])"

definition second_pass_log :: "nat set \<Rightarrow> arm64_cpu_capabilities \<Rightarrow> event list" where
  "second_pass_log S e =
     (case enable e of
        Some f \<Rightarrow> if capability e \<in> S then [Enable_noarg f] else []
      | None \<Rightarrow> [])"

text \<open>What \<open>fail_incapable_cpu\<close> logs.\<close>

definition parking_log :: "config \<Rightarrow> core \<Rightarrow> arm64_cpu_capabilities \<Rightarrow> event list" where
  "parking_log cfg c e =
     [Pr_crit (raw_smp_processor_id c) ''arm64_features'' (desc e),
      Set_cpu_present (raw_smp_processor_id c) False]
     @ (case cpu_ops cfg (raw_smp_processor_id c) of
          None \<Rightarrow> []
        | Some ops \<Rightarrow> (case cpu_die ops of None \<Rightarrow> [] | Some f \<Rightarrow> [Cpu_die (raw_smp_processor_id c)]))"

fun is_enable_call :: "event \<Rightarrow> bool" where
  "is_enable_call (Enable_arg f e) = True"
| "is_enable_call (Enable_noarg f) = True"
| "is_enable_call (On_each_cpu f e w) = True"
| "is_enable_call ev = False"

fun is_pr_info :: "event \<Rightarrow> bool" where
  "is_pr_info (Pr_info info d) = True"
| "is_pr_info ev = False"

text \<open>The register a match function reads, and the result of the call on a core.\<close>

fun matches_reg :: "matches_fn \<Rightarrow> sysreg" where
  "matches_reg PTR_has_id_aa64pfr0_feature = ID_AA64PFR0_EL1"
| "matches_reg PTR_has_id_aa64mmfr1_feature = ID_AA64MMFR1_EL1"

definition detected :: "config \<Rightarrow> core \<Rightarrow> arm64_cpu_capabilities \<Rightarrow> bool" where
  "detected cfg c e =
     (case matches e of
        None \<Rightarrow> False
      | Some m \<Rightarrow> feature_matches cfg (sysregs c (matches_reg m)) e)"

text \<open>
  Detection: entry \<open>i\<close> of \<open>es\<close> is a first addition when it is detected and its
  capability is neither in the set \<open>S\<close> the walk started from nor the capability of a
  detected entry before it. \<open>check_log\<close> is what the iteration for entry \<open>i\<close> logs, and
  \<open>check_entry\<close> is what the iteration does to the state.
\<close>

definition first_addition ::
  "config \<Rightarrow> core \<Rightarrow> nat set \<Rightarrow> arm64_cpu_capabilities list \<Rightarrow> nat \<Rightarrow> bool" where
  "first_addition cfg c S es i =
     (detected cfg c (es ! i)
      \<and> capability (es ! i) \<notin> S \<union> set (map capability (filter (detected cfg c) (take i es))))"

definition check_log ::
  "config \<Rightarrow> core \<Rightarrow> string \<Rightarrow> nat set \<Rightarrow> arm64_cpu_capabilities list \<Rightarrow> nat \<Rightarrow> event list" where
  "check_log cfg c info S es i =
     Read_cpuid (matches_reg (the (matches (es ! i))))
     # (if first_addition cfg c S es i then [Pr_info info (the (desc (es ! i)))] else [])"

definition check_entry ::
  "config \<Rightarrow> core \<Rightarrow> string \<Rightarrow> arm64_cpu_capabilities \<Rightarrow> kstate \<Rightarrow> kstate" where
  "check_entry cfg c info e st =
     (let st1 = emit (Read_cpuid (matches_reg (the (matches e)))) st in
      if detected cfg c e
      then cpus_set_cap (capability e)
             (if \<not> cpus_have_cap st1 (capability e) then pr_info info (the (desc e)) st1 else st1)
      else st1)"

subsection \<open>Concrete inputs\<close>

text \<open>
  The identifiers as the architecture encodes the registers (op0, op1, CRn, CRm and op2
  packed into one number), and the extraction of a signed field of four bits.
\<close>

fun arch_SYS :: "sysreg \<Rightarrow> u32" where
  "arch_SYS ID_PFR0_EL1 = 0x180100"
| "arch_SYS ID_PFR1_EL1 = 0x180120"
| "arch_SYS ID_DFR0_EL1 = 0x180140"
| "arch_SYS ID_MMFR0_EL1 = 0x180180"
| "arch_SYS ID_MMFR1_EL1 = 0x1801A0"
| "arch_SYS ID_MMFR2_EL1 = 0x1801C0"
| "arch_SYS ID_MMFR3_EL1 = 0x1801E0"
| "arch_SYS ID_ISAR0_EL1 = 0x180200"
| "arch_SYS ID_ISAR1_EL1 = 0x180220"
| "arch_SYS ID_ISAR2_EL1 = 0x180240"
| "arch_SYS ID_ISAR3_EL1 = 0x180260"
| "arch_SYS ID_ISAR4_EL1 = 0x180280"
| "arch_SYS ID_ISAR5_EL1 = 0x1802A0"
| "arch_SYS MVFR0_EL1 = 0x180300"
| "arch_SYS MVFR1_EL1 = 0x180320"
| "arch_SYS MVFR2_EL1 = 0x180340"
| "arch_SYS ID_AA64PFR0_EL1 = 0x180400"
| "arch_SYS ID_AA64PFR1_EL1 = 0x180420"
| "arch_SYS ID_AA64DFR0_EL1 = 0x180500"
| "arch_SYS ID_AA64DFR1_EL1 = 0x180520"
| "arch_SYS ID_AA64MMFR0_EL1 = 0x180700"
| "arch_SYS ID_AA64MMFR1_EL1 = 0x180720"
| "arch_SYS ID_AA64MMFR2_EL1 = 0x180740"
| "arch_SYS ID_AA64ISAR0_EL1 = 0x180600"
| "arch_SYS ID_AA64ISAR1_EL1 = 0x180620"
| "arch_SYS CNTFRQ_EL0 = 0x1BE000"
| "arch_SYS CTR_EL0 = 0x1B0020"
| "arch_SYS DCZID_EL0 = 0x1B00E0"

definition extract_signed_field :: "u64 \<Rightarrow> c_int \<Rightarrow> c_int" where
  "extract_signed_field features field =
     scast (signed_drop_bit 60 (push_bit (60 - unat field) features))"

definition example_config :: config where
  "example_config =
     \<lparr>CONFIG_ARM64_PAN = True, ARM64_HAS_SYSREG_GIC_CPUIF = 3, ARM64_HAS_PAN = 4,
      SYS = arch_SYS, cpuid_feature_extract_field = extract_signed_field,
      cpu_ops = (\<lambda>cpu. Some \<lparr>cpu_die = Some PTR_cpu_die\<rparr>)\<rparr>"

text \<open>
  A core with both features of the table, and a core without the GIC system register
  interface.
\<close>

definition full_core :: core where
  "full_core =
     \<lparr>raw_smp_processor_id = 0,
      sysregs = (\<lambda>r. 0)(ID_AA64PFR0_EL1 := 0x01000022, ID_AA64MMFR1_EL1 := 0x00100000,
                  ID_ISAR4_EL1 := 0x00011142, ID_ISAR5_EL1 := 0x00000001)\<rparr>"

definition weak_core :: core where
  "weak_core =
     \<lparr>raw_smp_processor_id = 2,
      sysregs = (\<lambda>r. 0)(ID_AA64PFR0_EL1 := 0x00000022, ID_AA64MMFR1_EL1 := 0x00100000)\<rparr>"

definition boot_state :: kstate where
  "boot_state =
     \<lparr>cpu_hwcaps = {}, sys_caps_initialised = False, cpu_present_mask = {0, 1, 2, 3},
      klog = []\<rparr>"

definition frozen_state :: kstate where
  "frozen_state =
     \<lparr>cpu_hwcaps = {3, 4}, sys_caps_initialised = True, cpu_present_mask = {0, 1, 2, 3},
      klog = []\<rparr>"

definition gic_entry :: arm64_cpu_capabilities where
  "gic_entry =
     \<lparr>desc = Some ''GIC system register CPU interface'', capability = 3,
      matches = Some PTR_has_id_aa64pfr0_feature, enable = None, sys_reg = 0,
      field_pos = 24, min_field_value = 1\<rparr>"

definition pan_entry :: arm64_cpu_capabilities where
  "pan_entry =
     \<lparr>desc = Some ''Privileged Access Never'', capability = 4,
      matches = Some PTR_has_id_aa64mmfr1_feature, enable = Some PTR_cpu_enable_pan,
      sys_reg = 0, field_pos = 20, min_field_value = 1\<rparr>"

text \<open>
  Entries that name the register to verify on a core that starts later, a table of them,
  and an entry whose \<open>sys_reg\<close> is no identifier of a register.
\<close>

definition pan_verified :: arm64_cpu_capabilities where
  "pan_verified = pan_entry\<lparr>sys_reg := 0x180720\<rparr>"

definition gic_verified :: arm64_cpu_capabilities where
  "gic_verified = gic_entry\<lparr>sys_reg := 0x180400, enable := Some PTR_cpu_enable_pan\<rparr>"

definition verified_table :: "arm64_cpu_capabilities list" where
  "verified_table = [pan_verified, gic_verified, pan_entry]"

definition stray_entry :: arm64_cpu_capabilities where
  "stray_entry = pan_entry\<lparr>sys_reg := 5\<rparr>"

section \<open>Properties\<close>

subsection \<open>Basic facts\<close>

lemma klog_update_self [simp]: "st\<lparr>klog := klog st\<rparr> = st"
  by simp

lemma switch_on_None_iff:
  "switch_on cfg sys_id cs = None \<longleftrightarrow> sys_id \<notin> set (map (\<lambda>(label, r). SYS cfg label) cs)"
proof (induction cs)
  case Nil
  then show ?case by simp
next
  case (Cons p cs)
  obtain label r where "p = (label, r)" by (cases p)
  with Cons show ?case by (cases "sys_id = SYS cfg label") simp_all
qed

lemma switch_on_enumerated:
  "switch_on cfg sys_id raw_read_cases = None \<longleftrightarrow> sys_id \<notin> enumerated_ids cfg"
  unfolding enumerated_ids_def by (rule switch_on_None_iff)

lemma raw_read_unknown:
  "sys_id \<notin> enumerated_ids cfg \<Longrightarrow> raw_read_system_reg cfg c sys_id st = (Inl Bugged, st)"
  using switch_on_enumerated [of cfg sys_id] by (simp add: raw_read_system_reg_def)

lemma raw_read_known:
  "switch_on cfg sys_id raw_read_cases = Some r \<Longrightarrow>
     raw_read_system_reg cfg c sys_id st = (Inr (sysregs c r), emit (Read_cpuid r) st)"
  by (simp add: raw_read_system_reg_def read_cpuid_def)

lemma arm64_features_no_sys_reg: "e \<in> set (arm64_features cfg) \<Longrightarrow> sys_reg e = 0"
  by (auto simp: arm64_features_def zero_entry_def split: if_splits)

lemma arm64_features_entries:
  "arm64_features cfg = butlast (arm64_features cfg) @ [zero_entry]
   \<and> (\<forall>e \<in> set (butlast (arm64_features cfg)). desc e \<noteq> None \<and> matches e \<noteq> None)"
  by (simp add: arm64_features_def butlast_append)

lemma zero_entry_not_detected: "\<not> detected cfg c zero_entry"
  by (simp add: detected_def zero_entry_def)

text \<open>Values of the concrete inputs.\<close>

lemma example_switch:
  "switch_on example_config 0x180720 raw_read_cases = Some ID_AA64MMFR1_EL1"
  "switch_on example_config 0x180400 raw_read_cases = Some ID_AA64PFR0_EL1"
  "switch_on example_config 5 raw_read_cases = None"
  by (simp_all add: raw_read_cases_def example_config_def)

lemma example_fields:
  "matches gic_entry = Some PTR_has_id_aa64pfr0_feature"
  "matches pan_entry = Some PTR_has_id_aa64mmfr1_feature"
  "desc gic_entry = Some ''GIC system register CPU interface''"
  "desc pan_entry = Some ''Privileged Access Never''"
  "capability gic_entry = 3" "capability pan_entry = 4"
  "enable gic_entry = None" "enable pan_entry = Some PTR_cpu_enable_pan"
  "sys_reg gic_entry = 0" "sys_reg pan_entry = 0"
  by (simp_all add: gic_entry_def pan_entry_def)

lemma verified_fields:
  "matches gic_verified = Some PTR_has_id_aa64pfr0_feature"
  "matches pan_verified = Some PTR_has_id_aa64mmfr1_feature"
  "desc gic_verified = Some ''GIC system register CPU interface''"
  "desc pan_verified = Some ''Privileged Access Never''"
  "capability gic_verified = 3" "capability pan_verified = 4"
  "enable gic_verified = Some PTR_cpu_enable_pan" "enable pan_verified = Some PTR_cpu_enable_pan"
  "sys_reg gic_verified = 0x180400" "sys_reg pan_verified = 0x180720"
  by (simp_all add: gic_verified_def pan_verified_def gic_entry_def pan_entry_def)

lemma example_feature_matches:
  "feature_matches example_config (sysregs full_core ID_AA64PFR0_EL1) gic_entry"
  "feature_matches example_config (sysregs full_core ID_AA64MMFR1_EL1) pan_entry"
  "\<not> feature_matches example_config (sysregs weak_core ID_AA64PFR0_EL1) gic_entry"
  "feature_matches example_config (sysregs weak_core ID_AA64MMFR1_EL1) pan_entry"
  by (simp_all add: feature_matches_def example_config_def extract_signed_field_def
      full_core_def weak_core_def gic_entry_def pan_entry_def word_sle_eq)

lemma verified_feature_matches:
  "feature_matches cfg reg gic_verified = feature_matches cfg reg gic_entry"
  "feature_matches cfg reg pan_verified = feature_matches cfg reg pan_entry"
  by (simp_all add: feature_matches_def gic_verified_def pan_verified_def)

lemma example_detected:
  "detected example_config full_core gic_entry"
  "detected example_config full_core pan_entry"
  "\<not> detected example_config weak_core gic_entry"
  by (simp_all add: detected_def example_fields example_feature_matches)

lemma example_local_match:
  "local_match example_config full_core pan_verified = Some True"
  "local_match example_config full_core gic_verified = Some True"
  "local_match example_config weak_core pan_verified = Some True"
  "local_match example_config weak_core gic_verified = Some False"
  "local_match example_config c stray_entry = None"
  by (simp_all add: local_match_def verified_fields example_switch verified_feature_matches
      example_feature_matches stray_entry_def)

lemma example_platform:
  "cpu_ops example_config cpu = Some \<lparr>cpu_die = Some PTR_cpu_die\<rparr>"
  "CONFIG_ARM64_PAN example_config"
  "ARM64_HAS_SYSREG_GIC_CPUIF example_config = 3" "ARM64_HAS_PAN example_config = 4"
  "raw_smp_processor_id full_core = 0" "raw_smp_processor_id weak_core = 2"
  by (simp_all add: example_config_def full_core_def weak_core_def)

lemma example_states:
  "cpu_hwcaps boot_state = {}" "\<not> sys_caps_initialised boot_state" "klog boot_state = []"
  "cpu_hwcaps frozen_state = {3, 4}" "sys_caps_initialised frozen_state"
  "klog frozen_state = []" "cpu_present_mask frozen_state = {0, 1, 2, 3}"
  by (simp_all add: boot_state_def frozen_state_def)

subsection \<open>The feature matcher\<close>

text \<open>
  C5: \<open>feature_matches\<close> is a total function without a failure value. It holds exactly
  when the extracted field, read as a signed number, is at least \<open>min_field_value\<close>;
  so it fails when the field is one below the threshold and holds at the threshold.
\<close>

theorem feature_matches_threshold:
  "(feature_matches cfg reg entry \<longleftrightarrow>
      sint (min_field_value entry) \<le> sint (cpuid_feature_extract_field cfg reg (field_pos entry)))
   \<and> (sint (cpuid_feature_extract_field cfg reg (field_pos entry)) = sint (min_field_value entry) - 1
        \<longrightarrow> \<not> feature_matches cfg reg entry)
   \<and> (cpuid_feature_extract_field cfg reg (field_pos entry) = min_field_value entry
        \<longrightarrow> feature_matches cfg reg entry)"
  by (simp add: feature_matches_def word_sle_eq)

theorem feature_matches_threshold_witness:
  "sint (cpuid_feature_extract_field example_config 0x00000022 (field_pos gic_entry))
      = sint (min_field_value gic_entry) - 1
   \<and> \<not> feature_matches example_config 0x00000022 gic_entry
   \<and> cpuid_feature_extract_field example_config 0x01000022 (field_pos gic_entry)
      = min_field_value gic_entry
   \<and> feature_matches example_config 0x01000022 gic_entry"
proof -
  have below: "sint (cpuid_feature_extract_field example_config 0x00000022 (field_pos gic_entry))
      = sint (min_field_value gic_entry) - 1"
    by (simp add: example_config_def gic_entry_def extract_signed_field_def)
  have at: "cpuid_feature_extract_field example_config 0x01000022 (field_pos gic_entry)
      = min_field_value gic_entry"
    by (simp add: example_config_def gic_entry_def extract_signed_field_def)
  from below at feature_matches_threshold [of example_config "0x00000022" gic_entry]
    feature_matches_threshold [of example_config "0x01000022" gic_entry]
  show ?thesis by blast
qed

subsection \<open>The local register read\<close>

text \<open>
  C1: the read does not always return the register its identifier names. With the
  identifiers of the architecture, the branch for \<open>SYS_ID_ISAR5_EL1\<close> reads
  \<open>ID_ISAR4_EL1\<close>, the branch for \<open>SYS_ID_AA64PFR1_EL1\<close> reads \<open>ID_AA64PFR0_EL1\<close>
  and the branch for \<open>SYS_ID_AA64DFR1_EL1\<close> reads \<open>ID_AA64DFR0_EL1\<close>; on a core whose
  \<open>ID_ISAR4_EL1\<close> and \<open>ID_ISAR5_EL1\<close> differ the value returned for
  \<open>SYS_ID_ISAR5_EL1\<close> is not that of \<open>ID_ISAR5_EL1\<close>.
\<close>

theorem raw_read_system_reg_wrong_register:
  "raw_read_system_reg example_config c (SYS example_config ID_ISAR5_EL1) st
     = (Inr (sysregs c ID_ISAR4_EL1), emit (Read_cpuid ID_ISAR4_EL1) st)
   \<and> raw_read_system_reg example_config c (SYS example_config ID_AA64PFR1_EL1) st
     = (Inr (sysregs c ID_AA64PFR0_EL1), emit (Read_cpuid ID_AA64PFR0_EL1) st)
   \<and> raw_read_system_reg example_config c (SYS example_config ID_AA64DFR1_EL1) st
     = (Inr (sysregs c ID_AA64DFR0_EL1), emit (Read_cpuid ID_AA64DFR0_EL1) st)
   \<and> fst (raw_read_system_reg example_config full_core (SYS example_config ID_ISAR5_EL1) boot_state)
     = Inr 0x00011142
   \<and> sysregs full_core ID_ISAR5_EL1 = 0x00000001"
  by (simp add: raw_read_system_reg_def raw_read_cases_def example_config_def read_cpuid_def
      full_core_def)

lemma first_pass_not_bugged:
  "\<forall>e \<in> set caps. sys_reg e \<noteq> 0 \<longrightarrow> sys_reg e \<in> enumerated_ids cfg \<Longrightarrow>
     fst (verify_first_pass cfg c caps st) \<noteq> Bugged"
proof (induction caps arbitrary: st)
  case Nil
  then show ?case by simp
next
  case (Cons e caps)
  show ?case
  proof (cases "matches e \<noteq> None \<and> cpus_have_cap st (capability e) \<and> sys_reg e \<noteq> 0")
    case False
    with Cons show ?thesis by auto
  next
    case True
    with Cons.prems have "sys_reg e \<in> enumerated_ids cfg" by simp
    then obtain r where r: "switch_on cfg (sys_reg e) raw_read_cases = Some r"
      using switch_on_enumerated [of cfg "sys_reg e"] by auto
    from Cons True show ?thesis
      by (simp add: raw_read_known [OF r])
  qed
qed

lemma second_pass_outcome:
  "fst (verify_second_pass caps st) = Returned \<or> fst (verify_second_pass caps st) = Out_of_bounds"
  by (induction caps arbitrary: st) (auto split: option.splits)

lemma verify_capabilities_not_bugged:
  assumes "\<forall>e \<in> set caps. sys_reg e \<noteq> 0 \<longrightarrow> sys_reg e \<in> enumerated_ids cfg"
  shows "fst (verify_capabilities cfg c caps st) \<noteq> Bugged"
proof -
  obtain out st1 where p1: "verify_first_pass cfg c caps st = (out, st1)"
    by (cases "verify_first_pass cfg c caps st")
  with first_pass_not_bugged [OF assms, of c st] have nb: "out \<noteq> Bugged" by simp
  show ?thesis
  proof (cases out)
    case Returned
    with p1 second_pass_outcome [of caps st1] show ?thesis
      by (auto simp: verify_capabilities_def)
  qed (use p1 nb in \<open>simp_all add: verify_capabilities_def\<close>)
qed

text \<open>
  C9: an identifier without a \<open>case\<close> ends the read in \<open>BUG()\<close>, with nothing read.
  When every \<open>sys_reg\<close> that is set in a table has a \<open>case\<close>, the verification of that
  table never ends in \<open>BUG()\<close>; the verification of \<open>arm64_features\<close> never does.
\<close>

theorem unknown_sys_id_is_bug:
  "(sys_id \<notin> enumerated_ids cfg \<longrightarrow> raw_read_system_reg cfg c sys_id st = (Inl Bugged, st))
   \<and> ((\<forall>e \<in> set caps. sys_reg e \<noteq> 0 \<longrightarrow> sys_reg e \<in> enumerated_ids cfg)
        \<longrightarrow> fst (verify_capabilities cfg c caps st) \<noteq> Bugged)
   \<and> fst (verify_local_cpu_capabilities cfg c st) \<noteq> Bugged"
proof (intro conjI impI)
  assume "sys_id \<notin> enumerated_ids cfg"
  then show "raw_read_system_reg cfg c sys_id st = (Inl Bugged, st)"
    by (rule raw_read_unknown)
next
  assume "\<forall>e \<in> set caps. sys_reg e \<noteq> 0 \<longrightarrow> sys_reg e \<in> enumerated_ids cfg"
  then show "fst (verify_capabilities cfg c caps st) \<noteq> Bugged"
    by (rule verify_capabilities_not_bugged)
next
  show "fst (verify_local_cpu_capabilities cfg c st) \<noteq> Bugged"
    unfolding verify_local_cpu_capabilities_def
    by (rule verify_capabilities_not_bugged) (simp add: arm64_features_no_sys_reg)
qed

theorem unknown_sys_id_is_bug_witness:
  "(5 :: u32) \<notin> enumerated_ids example_config
   \<and> raw_read_system_reg example_config full_core 5 frozen_state = (Inl Bugged, frozen_state)
   \<and> sys_reg pan_verified \<in> enumerated_ids example_config
   \<and> sys_reg gic_verified \<in> enumerated_ids example_config
   \<and> sys_reg pan_entry = 0 \<and> sys_reg zero_entry = 0
   \<and> fst (verify_capabilities example_config weak_core (verified_table @ [zero_entry])
            frozen_state) \<noteq> Bugged
   \<and> fst (verify_capabilities example_config full_core [stray_entry, zero_entry] frozen_state)
       = Bugged"
proof -
  have unknown: "(5 :: u32) \<notin> enumerated_ids example_config"
    using example_switch(3) by (simp add: switch_on_enumerated)
  have known: "sys_reg pan_verified \<in> enumerated_ids example_config"
    "sys_reg gic_verified \<in> enumerated_ids example_config"
    using example_switch(1,2) switch_on_enumerated [of example_config "0x180720"]
      switch_on_enumerated [of example_config "0x180400"]
    by (simp_all add: verified_fields)
  have unset: "sys_reg pan_entry = 0" "sys_reg zero_entry = 0"
    by (simp_all add: example_fields zero_entry_def)
  have table: "\<forall>e \<in> set (verified_table @ [zero_entry]).
      sys_reg e \<noteq> 0 \<longrightarrow> sys_reg e \<in> enumerated_ids example_config"
    using known unset by (simp add: verified_table_def)
  have stray: "fst (verify_capabilities example_config full_core [stray_entry, zero_entry]
      frozen_state) = Bugged"
    using raw_read_unknown [OF unknown, of full_core frozen_state]
    by (simp add: verify_capabilities_def example_states cpus_have_cap_def stray_entry_def
        example_fields)
  from unknown known unset table stray
    unknown_sys_id_is_bug [of 5 example_config full_core frozen_state
      "verified_table @ [zero_entry]"]
    unknown_sys_id_is_bug [of 5 example_config weak_core frozen_state
      "verified_table @ [zero_entry]"]
  show ?thesis by blast
qed

subsection \<open>Boot-time detection\<close>

lemma call_matches_result:
  "call_matches m cfg c e st =
     (feature_matches cfg (sysregs c (matches_reg m)) e, emit (Read_cpuid (matches_reg m)) st)"
  by (cases m) (simp_all add: has_id_aa64pfr0_feature_def has_id_aa64mmfr1_feature_def
      read_cpuid_def)

lemma check_step:
  assumes "desc e = Some d" and "matches e = Some m"
  shows "check_cpu_capabilities cfg c (e # caps) info st =
     check_cpu_capabilities cfg c caps info (check_entry cfg c info e st)"
  using assms
  by (simp add: call_matches_result detected_def check_entry_def)

lemma check_entry_fields:
  "cpu_hwcaps (check_entry cfg c info e st) =
     (if detected cfg c e then insert (capability e) (cpu_hwcaps st) else cpu_hwcaps st)"
  "klog (check_entry cfg c info e st) =
     klog st @ Read_cpuid (matches_reg (the (matches e)))
       # (if detected cfg c e \<and> capability e \<notin> cpu_hwcaps st
          then [Pr_info info (the (desc e))] else [])"
  "sys_caps_initialised (check_entry cfg c info e st) = sys_caps_initialised st"
  "cpu_present_mask (check_entry cfg c info e st) = cpu_present_mask st"
  by (simp_all add: check_entry_def Let_def cpus_set_cap_def cpus_have_cap_def pr_info_def
      emit_def)

lemma check_log_snoc:
  "i < length es \<Longrightarrow> check_log cfg c info S (es @ [e]) i = check_log cfg c info S es i"
  by (simp add: check_log_def first_addition_def nth_append)

lemma check_log_last:
  "check_log cfg c info S (es @ [e]) (length es) =
     Read_cpuid (matches_reg (the (matches e)))
       # (if detected cfg c e
             \<and> capability e \<notin> S \<union> set (map capability (filter (detected cfg c) es))
          then [Pr_info info (the (desc e))] else [])"
  by (simp add: check_log_def first_addition_def)

lemma check_log_upto_snoc:
  "concat (map (check_log cfg c info S (es @ [e])) [0..<length (es @ [e])]) =
     concat (map (check_log cfg c info S es) [0..<length es])
     @ check_log cfg c info S (es @ [e]) (length es)"
proof -
  have same: "map (check_log cfg c info S (es @ [e])) [0..<length es] =
      map (check_log cfg c info S es) [0..<length es]"
    by (rule map_cong) (simp_all add: check_log_snoc)
  show ?thesis by (simp add: same)
qed

lemma check_log_diagnostics:
  "filter is_pr_info (concat (map (check_log cfg c info S es) ns)) =
     map (\<lambda>i. Pr_info info (the (desc (es ! i)))) (filter (first_addition cfg c S es) ns)"
  by (induction ns) (simp_all add: check_log_def)

text \<open>
  The walk over entries that have a description and a match function reaches the rest of
  the table in a state that holds the detected capabilities and the log of the walk.
\<close>

lemma check_prefix:
  assumes "\<forall>e \<in> set es. desc e \<noteq> None \<and> matches e \<noteq> None"
  shows "\<exists>st'. (\<forall>rest. check_cpu_capabilities cfg c (es @ rest) info st =
                        check_cpu_capabilities cfg c rest info st')
     \<and> cpu_hwcaps st' = cpu_hwcaps st \<union> set (map capability (filter (detected cfg c) es))
     \<and> klog st' = klog st @ concat (map (check_log cfg c info (cpu_hwcaps st) es) [0..<length es])
     \<and> sys_caps_initialised st' = sys_caps_initialised st
     \<and> cpu_present_mask st' = cpu_present_mask st"
  using assms
proof (induction es rule: rev_induct)
  case Nil
  show ?case by (rule exI [of _ st]) simp
next
  case (snoc e es)
  from snoc.prems have "\<forall>e \<in> set es. desc e \<noteq> None \<and> matches e \<noteq> None" by simp
  from snoc.IH [OF this] obtain st1 where
    walk: "\<And>rest. check_cpu_capabilities cfg c (es @ rest) info st =
                        check_cpu_capabilities cfg c rest info st1"
    and caps1: "cpu_hwcaps st1 =
      cpu_hwcaps st \<union> set (map capability (filter (detected cfg c) es))"
    and log1: "klog st1 =
      klog st @ concat (map (check_log cfg c info (cpu_hwcaps st) es) [0..<length es])"
    and f1: "sys_caps_initialised st1 = sys_caps_initialised st"
    and p1: "cpu_present_mask st1 = cpu_present_mask st"
    by blast
  from snoc.prems obtain d m where d: "desc e = Some d" and m: "matches e = Some m" by auto
  let ?st2 = "check_entry cfg c info e st1"
  have log2: "klog ?st2 =
      klog st @ concat (map (check_log cfg c info (cpu_hwcaps st) (es @ [e]))
                          [0..<length (es @ [e])])"
    unfolding check_log_upto_snoc check_log_last
    by (simp add: check_entry_fields log1 caps1)
  have caps2: "cpu_hwcaps ?st2 =
      cpu_hwcaps st \<union> set (map capability (filter (detected cfg c) (es @ [e])))"
    using caps1 by (auto simp: check_entry_fields)
  have walk2: "check_cpu_capabilities cfg c ((es @ [e]) @ rest) info st =
      check_cpu_capabilities cfg c rest info ?st2" for rest
  proof -
    have "check_cpu_capabilities cfg c ((es @ [e]) @ rest) info st =
        check_cpu_capabilities cfg c (e # rest) info st1"
      using walk [of "e # rest"] by simp
    also have "\<dots> = check_cpu_capabilities cfg c rest info ?st2"
      using d m by (rule check_step)
    finally show ?thesis .
  qed
  show ?case
  proof (intro exI [of _ ?st2] conjI allI)
    show "sys_caps_initialised ?st2 = sys_caps_initialised st"
      by (simp add: check_entry_fields f1)
    show "cpu_present_mask ?st2 = cpu_present_mask st"
      by (simp add: check_entry_fields p1)
  qed (rule walk2 caps2 log2)+
qed

lemma check_walk:
  assumes "\<forall>e \<in> set es. desc e \<noteq> None \<and> matches e \<noteq> None"
  shows "\<exists>st'. check_cpu_capabilities cfg c (es @ [zero_entry]) info st = (Returned, st')
     \<and> cpu_hwcaps st' = cpu_hwcaps st \<union> set (map capability (filter (detected cfg c) es))
     \<and> klog st' = klog st @ concat (map (check_log cfg c info (cpu_hwcaps st) es) [0..<length es])"
proof -
  from check_prefix [OF assms, of cfg c info st] obtain st1 where
    walk: "\<And>rest. check_cpu_capabilities cfg c (es @ rest) info st =
                        check_cpu_capabilities cfg c rest info st1"
    and caps1: "cpu_hwcaps st1 =
      cpu_hwcaps st \<union> set (map capability (filter (detected cfg c) es))"
    and log1: "klog st1 =
      klog st @ concat (map (check_log cfg c info (cpu_hwcaps st) es) [0..<length es])"
    by blast
  have "check_cpu_capabilities cfg c (es @ [zero_entry]) info st = (Returned, st1)"
    using walk [of "[zero_entry]"] by (simp add: zero_entry_def)
  with caps1 log1 show ?thesis by blast
qed

lemma check_local_walk:
  "fst (check_local_cpu_features cfg c st) = Returned
   \<and> cpu_hwcaps (snd (check_local_cpu_features cfg c st)) =
       cpu_hwcaps st \<union> set (map capability (filter (detected cfg c) (arm64_features cfg)))"
proof -
  let ?es = "butlast (arm64_features cfg)"
  from arm64_features_entries [of cfg]
  have split: "arm64_features cfg = ?es @ [zero_entry]"
    and ok: "\<forall>e \<in> set ?es. desc e \<noteq> None \<and> matches e \<noteq> None"
    by blast+
  from check_walk [OF ok, of cfg c "''detected feature''" st] obtain st1 where
    res: "check_cpu_capabilities cfg c (?es @ [zero_entry]) ''detected feature'' st = (Returned, st1)"
    and caps1: "cpu_hwcaps st1 =
      cpu_hwcaps st \<union> set (map capability (filter (detected cfg c) ?es))"
    by blast
  have "filter (detected cfg c) (?es @ [zero_entry]) = filter (detected cfg c) ?es"
    by (simp add: zero_entry_not_detected)
  then have flt: "filter (detected cfg c) (arm64_features cfg) = filter (detected cfg c) ?es"
    by (simp only: split [symmetric])
  have "check_local_cpu_features cfg c st = (Returned, st1)"
    unfolding check_local_cpu_features_def using res by (simp only: split [symmetric])
  with caps1 flt show ?thesis by simp
qed

text \<open>
  C4: on a table whose entries have a description and a match function, ended by the
  empty entry, detection returns; the Capability Set then holds what it held before and
  the capabilities of the entries whose match function returned true on the executing
  core, so exactly those when it started empty. Nothing is reported for an entry that
  does not match. Each iteration reads one register, and prints a message exactly for
  a first addition. The same holds of \<open>check_local_cpu_features\<close> on \<open>arm64_features\<close>.
\<close>

theorem check_detects:
  assumes "\<forall>e \<in> set es. desc e \<noteq> None \<and> matches e \<noteq> None"
  shows "fst (check_cpu_capabilities cfg c (es @ [zero_entry]) info st) = Returned
    \<and> cpu_hwcaps (snd (check_cpu_capabilities cfg c (es @ [zero_entry]) info st)) =
        cpu_hwcaps st \<union> set (map capability (filter (detected cfg c) es))
    \<and> (cpu_hwcaps st = {} \<longrightarrow>
        cpu_hwcaps (snd (check_cpu_capabilities cfg c (es @ [zero_entry]) info st)) =
          set (map capability (filter (detected cfg c) es)))
    \<and> klog (snd (check_cpu_capabilities cfg c (es @ [zero_entry]) info st)) =
        klog st @ concat (map (check_log cfg c info (cpu_hwcaps st) es) [0..<length es])
    \<and> filter is_pr_info
        (concat (map (check_log cfg c info (cpu_hwcaps st) es) [0..<length es])) =
        map (\<lambda>i. Pr_info info (the (desc (es ! i))))
          (filter (first_addition cfg c (cpu_hwcaps st) es) [0..<length es])
    \<and> fst (check_local_cpu_features cfg c st) = Returned
    \<and> cpu_hwcaps (snd (check_local_cpu_features cfg c st)) =
        cpu_hwcaps st \<union> set (map capability (filter (detected cfg c) (arm64_features cfg)))"
proof -
  from check_walk [OF assms, of cfg c info st] obtain st1 where
    "check_cpu_capabilities cfg c (es @ [zero_entry]) info st = (Returned, st1)"
    "cpu_hwcaps st1 = cpu_hwcaps st \<union> set (map capability (filter (detected cfg c) es))"
    "klog st1 = klog st @ concat (map (check_log cfg c info (cpu_hwcaps st) es) [0..<length es])"
    by blast
  with check_log_diagnostics [of cfg c info "cpu_hwcaps st" es "[0..<length es]"]
    check_local_walk [of cfg c st]
  show ?thesis by simp
qed

theorem check_detects_witness:
  "desc gic_entry \<noteq> None \<and> matches gic_entry \<noteq> None
   \<and> desc pan_entry \<noteq> None \<and> matches pan_entry \<noteq> None
   \<and> cpu_hwcaps boot_state = {}
   \<and> fst (check_cpu_capabilities example_config full_core
            ([gic_entry, pan_entry, pan_entry] @ [zero_entry]) ''detected feature'' boot_state)
       = Returned
   \<and> cpu_hwcaps (snd (check_cpu_capabilities example_config full_core
            ([gic_entry, pan_entry, pan_entry] @ [zero_entry]) ''detected feature'' boot_state))
       = {3, 4}
   \<and> klog (snd (check_cpu_capabilities example_config full_core
            ([gic_entry, pan_entry, pan_entry] @ [zero_entry]) ''detected feature'' boot_state))
       = [Read_cpuid ID_AA64PFR0_EL1,
          Pr_info ''detected feature'' ''GIC system register CPU interface'',
          Read_cpuid ID_AA64MMFR1_EL1,
          Pr_info ''detected feature'' ''Privileged Access Never'',
          Read_cpuid ID_AA64MMFR1_EL1]
   \<and> cpu_hwcaps (snd (check_local_cpu_features example_config weak_core boot_state)) = {4}"
proof -
  have entries: "\<forall>e \<in> set [gic_entry, pan_entry, pan_entry]. desc e \<noteq> None \<and> matches e \<noteq> None"
    by (simp add: example_fields)
  have weak: "filter (detected example_config weak_core) (arm64_features example_config) =
      [pan_entry]"
    by (simp add: arm64_features_def example_config_def detected_def feature_matches_def
        extract_signed_field_def weak_core_def zero_entry_def pan_entry_def word_sle_eq)
  have upto: "[0..<length [gic_entry, pan_entry, pan_entry]] = [0, 1, 2]"
    by (simp add: upt_rec)
  from check_detects [OF entries, of example_config full_core "''detected feature''" boot_state]
    check_detects [OF entries, of example_config weak_core "''detected feature''" boot_state]
  show ?thesis
    unfolding upto
    by (simp add: example_fields example_states example_detected weak check_log_def
        first_addition_def del: check_cpu_capabilities.simps upt_Suc)
qed

subsection \<open>Enabling at boot\<close>

lemma enable_step:
  "matches e \<noteq> None \<Longrightarrow>
   enable_cpu_capabilities (e # caps) st =
     enable_cpu_capabilities caps
       (st\<lparr>klog := klog st @
          (if enable e \<noteq> None \<and> capability e \<in> cpu_hwcaps st
           then [On_each_cpu (the (enable e)) e True] else [])\<rparr>)"
  by (cases "enable e")
     (auto simp: on_each_cpu_def cpus_have_cap_def emit_def simp del: not_None_eq)

lemma enable_walk:
  "\<forall>e \<in> set es. matches e \<noteq> None \<Longrightarrow>
   enable_cpu_capabilities (es @ [zero_entry]) st =
     (Returned,
      st\<lparr>klog := klog st @
         map (\<lambda>e. On_each_cpu (the (enable e)) e True)
           (filter (\<lambda>e. enable e \<noteq> None \<and> capability e \<in> cpu_hwcaps st) es)\<rparr>)"
proof (induction es arbitrary: st)
  case Nil
  then show ?case by (simp add: zero_entry_def)
next
  case (Cons e es)
  let ?st1 = "st\<lparr>klog := klog st @
          (if enable e \<noteq> None \<and> capability e \<in> cpu_hwcaps st
           then [On_each_cpu (the (enable e)) e True] else [])\<rparr>"
  from Cons.prems have m: "matches e \<noteq> None" and rest: "\<forall>e \<in> set es. matches e \<noteq> None"
    by simp_all
  have "enable_cpu_capabilities (e # es @ [zero_entry]) st =
      enable_cpu_capabilities (es @ [zero_entry]) ?st1"
    using m by (rule enable_step)
  with Cons.IH [OF rest, of ?st1] show ?case by simp
qed

text \<open>
  C6: on a table whose entries have a match function, ended by the empty entry,
  \<open>enable_cpu_capabilities\<close> returns after one \<open>on_each_cpu\<close> call with \<open>wait\<close> set for
  each entry, in table order, that has an enable callback and whose capability is in the
  Capability Set, and no call for any other entry; the Capability Set and every other
  part of the state stay as they were. With an empty Capability Set it makes no call.
\<close>

theorem enable_broadcasts:
  assumes "\<forall>e \<in> set es. matches e \<noteq> None"
  shows "enable_cpu_capabilities (es @ [zero_entry]) st =
     (Returned,
      st\<lparr>klog := klog st @
         map (\<lambda>e. On_each_cpu (the (enable e)) e True)
           (filter (\<lambda>e. enable e \<noteq> None \<and> capability e \<in> cpu_hwcaps st) es)\<rparr>)
     \<and> (cpu_hwcaps st = {} \<longrightarrow> enable_cpu_capabilities (es @ [zero_entry]) st = (Returned, st))"
  using enable_walk [OF assms, of st] by simp

theorem enable_broadcasts_witness:
  "matches gic_entry \<noteq> None \<and> matches pan_entry \<noteq> None
   \<and> enable_cpu_capabilities ([gic_entry, pan_entry] @ [zero_entry]) frozen_state =
       (Returned, frozen_state\<lparr>klog := [On_each_cpu PTR_cpu_enable_pan pan_entry True]\<rparr>)
   \<and> cpu_hwcaps boot_state = {}
   \<and> enable_cpu_capabilities ([gic_entry, pan_entry] @ [zero_entry]) boot_state =
       (Returned, boot_state)"
proof -
  have entries: "\<forall>e \<in> set [gic_entry, pan_entry]. matches e \<noteq> None"
    by (simp add: example_fields)
  from enable_broadcasts [OF entries, of frozen_state] enable_broadcasts [OF entries, of boot_state]
  show ?thesis
    by (simp add: example_fields example_states del: enable_cpu_capabilities.simps)
qed

subsection \<open>Verification of a core that starts later\<close>

text \<open>
  C7: while \<open>sys_caps_initialised\<close> is false, \<open>verify_local_cpu_capabilities\<close> returns
  with the state, log included, as it was, whatever the registers of the core hold and
  whatever table it would walk: nothing is read, matched, enabled or parked.
\<close>

theorem verify_before_initialised:
  "\<not> sys_caps_initialised st \<Longrightarrow>
     verify_local_cpu_capabilities cfg c st = (Returned, st)
     \<and> verify_capabilities cfg c caps st = (Returned, st)"
  by (simp add: verify_local_cpu_capabilities_def verify_capabilities_def)

theorem verify_before_initialised_witness:
  "\<not> sys_caps_initialised boot_state
   \<and> verify_local_cpu_capabilities example_config weak_core boot_state = (Returned, boot_state)
   \<and> verify_capabilities example_config weak_core (verified_table @ [zero_entry]) boot_state
       = (Returned, boot_state)"
proof -
  have "\<not> sys_caps_initialised boot_state" by (simp add: boot_state_def)
  then show ?thesis
    using verify_before_initialised [of boot_state example_config weak_core
        "verified_table @ [zero_entry]"]
    by simp
qed

text \<open>One iteration of the first loop: an entry that is skipped, one that matches, one that does not.\<close>

lemma first_pass_skip:
  "matches e \<noteq> None \<Longrightarrow> \<not> must_verify (cpu_hwcaps st) e \<Longrightarrow>
     verify_first_pass cfg c (e # caps) st = verify_first_pass cfg c caps st"
  by (auto simp: must_verify_def cpus_have_cap_def simp del: not_None_eq)

lemma first_pass_match:
  assumes "matches e \<noteq> None" and "must_verify (cpu_hwcaps st) e"
    and "local_match cfg c e = Some True"
  shows "verify_first_pass cfg c (e # caps) st =
     verify_first_pass cfg c caps (st\<lparr>klog := klog st @ first_pass_log cfg (cpu_hwcaps st) e\<rparr>)"
proof -
  from assms(3) obtain r where r: "switch_on cfg (sys_reg e) raw_read_cases = Some r"
    and fm: "feature_matches cfg (sysregs c r) e"
    by (auto simp: local_match_def)
  from assms(1,2) r fm show ?thesis
    by (cases "enable e")
       (simp_all add: must_verify_def cpus_have_cap_def raw_read_known first_pass_log_def
          emit_def del: not_None_eq)
qed

lemma first_pass_mismatch:
  assumes "matches e \<noteq> None" and "mismatch cfg c (cpu_hwcaps st) e"
  shows "verify_first_pass cfg c (e # caps) st =
     (Parked, fail_incapable_cpu cfg c ''arm64_features'' e
        (emit (Read_cpuid (the (switch_on cfg (sys_reg e) raw_read_cases))) st))"
proof -
  from assms(2) obtain r where r: "switch_on cfg (sys_reg e) raw_read_cases = Some r"
    and fm: "\<not> feature_matches cfg (sysregs c r) e" and mv: "must_verify (cpu_hwcaps st) e"
    by (auto simp: mismatch_def local_match_def)
  from assms(1) mv r fm show ?thesis
    by (simp add: must_verify_def cpus_have_cap_def raw_read_known del: not_None_eq)
qed

lemma first_pass_prefix:
  assumes "\<forall>e \<in> set es. matches e \<noteq> None"
    and "\<forall>e \<in> set es. must_verify (cpu_hwcaps st) e \<longrightarrow> local_match cfg c e = Some True"
  shows "verify_first_pass cfg c (es @ rest) st =
     verify_first_pass cfg c rest
       (st\<lparr>klog := klog st @ concat (map (first_pass_log cfg (cpu_hwcaps st)) es)\<rparr>)"
  using assms
proof (induction es arbitrary: st)
  case Nil
  then show ?case by simp
next
  case (Cons e es)
  from Cons.prems have m: "matches e \<noteq> None" by simp
  from Cons.prems have rest1: "\<forall>e \<in> set es. matches e \<noteq> None" by simp
  from Cons.prems have rest2:
    "\<forall>e \<in> set es. must_verify (cpu_hwcaps st) e \<longrightarrow> local_match cfg c e = Some True" by simp
  show ?case
  proof (cases "must_verify (cpu_hwcaps st) e")
    case False
    have "verify_first_pass cfg c (e # es @ rest) st = verify_first_pass cfg c (es @ rest) st"
      using m False by (rule first_pass_skip)
    moreover from False have "first_pass_log cfg (cpu_hwcaps st) e = []"
      by (simp add: first_pass_log_def)
    ultimately show ?thesis using Cons.IH [OF rest1 rest2] by simp
  next
    case True
    let ?st1 = "st\<lparr>klog := klog st @ first_pass_log cfg (cpu_hwcaps st) e\<rparr>"
    from Cons.prems True have lm: "local_match cfg c e = Some True" by simp
    have step: "verify_first_pass cfg c (e # es @ rest) st =
        verify_first_pass cfg c (es @ rest) ?st1"
      using m True lm by (rule first_pass_match)
    have same: "cpu_hwcaps ?st1 = cpu_hwcaps st" by simp
    from rest2 same
    have "\<forall>e \<in> set es. must_verify (cpu_hwcaps ?st1) e \<longrightarrow> local_match cfg c e = Some True"
      by simp
    from Cons.IH [OF rest1 this] step show ?thesis by simp
  qed
qed

lemma second_pass_step:
  "desc e \<noteq> None \<Longrightarrow>
   verify_second_pass (e # caps) st =
     verify_second_pass caps (st\<lparr>klog := klog st @ second_pass_log (cpu_hwcaps st) e\<rparr>)"
  by (cases "enable e")
     (auto simp: second_pass_log_def cpus_have_cap_def emit_def)

lemma second_pass_walk:
  "\<forall>e \<in> set es. desc e \<noteq> None \<Longrightarrow>
   verify_second_pass (es @ [zero_entry]) st =
     (Returned, st\<lparr>klog := klog st @ concat (map (second_pass_log (cpu_hwcaps st)) es)\<rparr>)"
proof (induction es arbitrary: st)
  case Nil
  then show ?case by (simp add: zero_entry_def)
next
  case (Cons e es)
  let ?st1 = "st\<lparr>klog := klog st @ second_pass_log (cpu_hwcaps st) e\<rparr>"
  from Cons.prems have d: "desc e \<noteq> None" and rest: "\<forall>e \<in> set es. desc e \<noteq> None"
    by simp_all
  have "verify_second_pass (e # es @ [zero_entry]) st =
      verify_second_pass (es @ [zero_entry]) ?st1"
    using d by (rule second_pass_step)
  with Cons.IH [OF rest, of ?st1] show ?case by simp
qed

lemma first_pass_enable_calls:
  "filter is_enable_call (concat (map (first_pass_log cfg S) es)) =
     map (\<lambda>e. Enable_arg (the (enable e)) e)
       (filter (\<lambda>e. sys_reg e \<noteq> 0 \<and> capability e \<in> S \<and> enable e \<noteq> None) es)"
  by (induction es) (auto simp: first_pass_log_def must_verify_def split: option.splits)

lemma second_pass_enable_calls:
  "concat (map (second_pass_log S) es) =
     map (\<lambda>e. Enable_noarg (the (enable e)))
       (filter (\<lambda>e. capability e \<in> S \<and> enable e \<noteq> None) es)"
  by (induction es) (auto simp: second_pass_log_def split: option.splits)

lemma fail_incapable_cpu_state:
  "fail_incapable_cpu cfg c ''arm64_features'' e st =
     st\<lparr>cpu_present_mask := cpu_present_mask st - {raw_smp_processor_id c},
        klog := klog st @ parking_log cfg c e\<rparr>"
  by (simp add: fail_incapable_cpu_def Let_def pr_crit_def set_cpu_present_def emit_def
      parking_log_def split: option.splits)

lemma parking_log_no_enable: "filter is_enable_call (parking_log cfg c e) = []"
  by (simp add: parking_log_def split: option.splits)

text \<open>
  C3: with \<open>sys_caps_initialised\<close> set, on a table whose entries have a description and
  a match function, ended by the empty entry, where every entry to verify matches on
  the core, the verification returns after two passes in table order. The first reads
  the register of each entry to verify and calls its enable callback, if it has one,
  with the entry as argument; the second calls the enable callback without argument for
  each entry that has one and whose capability is in the Capability Set. Each such call
  is made once, and nothing else changes.
\<close>

theorem verify_two_passes:
  assumes "sys_caps_initialised st"
    and "\<forall>e \<in> set es. desc e \<noteq> None \<and> matches e \<noteq> None"
    and "\<forall>e \<in> set es. must_verify (cpu_hwcaps st) e \<longrightarrow> local_match cfg c e = Some True"
  shows "verify_capabilities cfg c (es @ [zero_entry]) st =
           (Returned,
            st\<lparr>klog := klog st @ concat (map (first_pass_log cfg (cpu_hwcaps st)) es)
                               @ concat (map (second_pass_log (cpu_hwcaps st)) es)\<rparr>)
         \<and> filter is_enable_call (concat (map (first_pass_log cfg (cpu_hwcaps st)) es)) =
             map (\<lambda>e. Enable_arg (the (enable e)) e)
               (filter (\<lambda>e. sys_reg e \<noteq> 0 \<and> capability e \<in> cpu_hwcaps st \<and> enable e \<noteq> None) es)
         \<and> concat (map (second_pass_log (cpu_hwcaps st)) es) =
             map (\<lambda>e. Enable_noarg (the (enable e)))
               (filter (\<lambda>e. capability e \<in> cpu_hwcaps st \<and> enable e \<noteq> None) es)"
proof (intro conjI)
  let ?st1 = "st\<lparr>klog := klog st @ concat (map (first_pass_log cfg (cpu_hwcaps st)) es)\<rparr>"
  from assms(2,3) have "verify_first_pass cfg c (es @ [zero_entry]) st =
      verify_first_pass cfg c [zero_entry] ?st1"
    by (intro first_pass_prefix) simp_all
  then have p1: "verify_first_pass cfg c (es @ [zero_entry]) st = (Returned, ?st1)"
    by (simp add: zero_entry_def)
  from assms(2) have "verify_second_pass (es @ [zero_entry]) ?st1 =
      (Returned, ?st1\<lparr>klog := klog ?st1 @ concat (map (second_pass_log (cpu_hwcaps ?st1)) es)\<rparr>)"
    by (intro second_pass_walk) simp
  with p1 assms(1) show "verify_capabilities cfg c (es @ [zero_entry]) st =
           (Returned,
            st\<lparr>klog := klog st @ concat (map (first_pass_log cfg (cpu_hwcaps st)) es)
                               @ concat (map (second_pass_log (cpu_hwcaps st)) es)\<rparr>)"
    by (simp add: verify_capabilities_def)
qed (rule first_pass_enable_calls second_pass_enable_calls)+

theorem verify_two_passes_witness:
  "sys_caps_initialised frozen_state
   \<and> desc pan_verified \<noteq> None \<and> matches pan_verified \<noteq> None
   \<and> desc gic_verified \<noteq> None \<and> matches gic_verified \<noteq> None
   \<and> desc pan_entry \<noteq> None \<and> matches pan_entry \<noteq> None
   \<and> local_match example_config full_core pan_verified = Some True
   \<and> local_match example_config full_core gic_verified = Some True
   \<and> \<not> must_verify (cpu_hwcaps frozen_state) pan_entry
   \<and> verify_capabilities example_config full_core (verified_table @ [zero_entry]) frozen_state =
       (Returned,
        frozen_state\<lparr>klog :=
          [Read_cpuid ID_AA64MMFR1_EL1, Enable_arg PTR_cpu_enable_pan pan_verified,
           Read_cpuid ID_AA64PFR0_EL1, Enable_arg PTR_cpu_enable_pan gic_verified,
           Enable_noarg PTR_cpu_enable_pan, Enable_noarg PTR_cpu_enable_pan,
           Enable_noarg PTR_cpu_enable_pan]\<rparr>)"
proof -
  have flag: "sys_caps_initialised frozen_state" by (simp add: example_states)
  have entries: "\<forall>e \<in> set verified_table. desc e \<noteq> None \<and> matches e \<noteq> None"
    by (simp add: verified_table_def verified_fields example_fields)
  have unset: "\<not> must_verify (cpu_hwcaps frozen_state) pan_entry"
    by (simp add: must_verify_def example_fields)
  have ok: "\<forall>e \<in> set verified_table.
      must_verify (cpu_hwcaps frozen_state) e \<longrightarrow> local_match example_config full_core e = Some True"
    using unset by (simp add: verified_table_def example_local_match)
  from verify_two_passes [OF flag entries ok] unset
  show ?thesis
    by (simp add: verified_table_def verified_fields example_fields example_states
        example_local_match first_pass_log_def second_pass_log_def must_verify_def
        example_switch)
qed

text \<open>
  C2: with \<open>sys_caps_initialised\<close> set, on a table whose entries have a match function
  and whose set \<open>sys_reg\<close> fields all have a \<open>case\<close>, if some entry to verify fails its
  local match then the verification parks the core at the first such entry. Up to there
  it logs what the first pass logs for the entries before it, then the read of the
  register of the failing entry, the critical message with the number of the core and the
  description of the entry, the marking of the core as not present, and the call of
  \<open>cpu_die\<close> if the core has one. The core leaves the present mask. The enable calls
  made are those of the first pass for entries before the failing one: none for the
  failing entry, none for a later entry, and none of the second pass.
\<close>

theorem verify_parks_at_first_mismatch:
  assumes "sys_caps_initialised st"
    and "\<forall>e \<in> set es. matches e \<noteq> None"
    and "\<forall>e \<in> set es. sys_reg e \<noteq> 0 \<longrightarrow> sys_reg e \<in> enumerated_ids cfg"
    and "\<exists>e \<in> set es. mismatch cfg c (cpu_hwcaps st) e"
  shows "verify_capabilities cfg c (es @ [zero_entry]) st =
           (Parked,
            st\<lparr>cpu_present_mask := cpu_present_mask st - {raw_smp_processor_id c},
               klog := klog st
                 @ concat (map (first_pass_log cfg (cpu_hwcaps st))
                     (takeWhile (\<lambda>e. \<not> mismatch cfg c (cpu_hwcaps st) e) es))
                 @ [Read_cpuid (the (switch_on cfg
                      (sys_reg (hd (dropWhile (\<lambda>e. \<not> mismatch cfg c (cpu_hwcaps st) e) es)))
                      raw_read_cases))]
                 @ parking_log cfg c
                     (hd (dropWhile (\<lambda>e. \<not> mismatch cfg c (cpu_hwcaps st) e) es))\<rparr>)
         \<and> filter is_enable_call
             (concat (map (first_pass_log cfg (cpu_hwcaps st))
                     (takeWhile (\<lambda>e. \<not> mismatch cfg c (cpu_hwcaps st) e) es))
              @ [Read_cpuid (the (switch_on cfg
                      (sys_reg (hd (dropWhile (\<lambda>e. \<not> mismatch cfg c (cpu_hwcaps st) e) es)))
                      raw_read_cases))]
              @ parking_log cfg c
                     (hd (dropWhile (\<lambda>e. \<not> mismatch cfg c (cpu_hwcaps st) e) es))) =
             map (\<lambda>e. Enable_arg (the (enable e)) e)
               (filter (\<lambda>e. sys_reg e \<noteq> 0 \<and> capability e \<in> cpu_hwcaps st \<and> enable e \<noteq> None)
                  (takeWhile (\<lambda>e. \<not> mismatch cfg c (cpu_hwcaps st) e) es))"
proof (intro conjI)
  let ?ok = "\<lambda>e. \<not> mismatch cfg c (cpu_hwcaps st) e"
  let ?pre = "takeWhile ?ok es"
  let ?post = "dropWhile ?ok es"
  from assms(4) have ne: "?post \<noteq> []" by (auto simp: dropWhile_eq_Nil_conv)
  then obtain bad post where post: "?post = bad # post" by (cases ?post) auto
  then have bad: "mismatch cfg c (cpu_hwcaps st) bad"
    using hd_dropWhile [of ?ok es] ne by (metis list.sel(1))
  have es: "es = ?pre @ bad # post" using post by (metis takeWhile_dropWhile_id)
  then have bad_in: "bad \<in> set es" by (metis in_set_conv_decomp)
  have pre_sub: "set ?pre \<subseteq> set es" by (auto dest: set_takeWhileD)
  have pre_ok: "\<forall>e \<in> set ?pre. must_verify (cpu_hwcaps st) e \<longrightarrow> local_match cfg c e = Some True"
  proof (intro ballI impI)
    fix e assume e: "e \<in> set ?pre" and mv: "must_verify (cpu_hwcaps st) e"
    from e have nm: "\<not> mismatch cfg c (cpu_hwcaps st) e" by (auto dest: set_takeWhileD)
    from e pre_sub assms(3) mv have "sys_reg e \<in> enumerated_ids cfg"
      by (auto simp: must_verify_def)
    then have "switch_on cfg (sys_reg e) raw_read_cases \<noteq> None"
      by (simp add: switch_on_enumerated)
    with nm mv show "local_match cfg c e = Some True"
      by (auto simp: mismatch_def local_match_def)
  qed
  let ?st1 = "st\<lparr>klog := klog st @ concat (map (first_pass_log cfg (cpu_hwcaps st)) ?pre)\<rparr>"
  have pre_m: "\<forall>e \<in> set ?pre. matches e \<noteq> None"
    using assms(2) pre_sub by blast
  have e1: "es @ [zero_entry] = ?pre @ (bad # post @ [zero_entry])"
    using es by (metis append_Cons append_assoc)
  have "verify_first_pass cfg c (es @ [zero_entry]) st =
      verify_first_pass cfg c (?pre @ (bad # post @ [zero_entry])) st"
    by (simp only: e1 [symmetric])
  also have "\<dots> = verify_first_pass cfg c (bad # post @ [zero_entry]) ?st1"
    using pre_m pre_ok by (rule first_pass_prefix)
  also have "\<dots> = (Parked, fail_incapable_cpu cfg c ''arm64_features'' bad
        (emit (Read_cpuid (the (switch_on cfg (sys_reg bad) raw_read_cases))) ?st1))"
  proof (rule first_pass_mismatch)
    from assms(2) bad_in show "matches bad \<noteq> None" by blast
    from bad show "mismatch cfg c (cpu_hwcaps ?st1) bad" by simp
  qed
  finally have "verify_first_pass cfg c (es @ [zero_entry]) st =
     (Parked, fail_incapable_cpu cfg c ''arm64_features'' bad
        (emit (Read_cpuid (the (switch_on cfg (sys_reg bad) raw_read_cases))) ?st1))" .
  with assms(1) post show "verify_capabilities cfg c (es @ [zero_entry]) st =
           (Parked,
            st\<lparr>cpu_present_mask := cpu_present_mask st - {raw_smp_processor_id c},
               klog := klog st
                 @ concat (map (first_pass_log cfg (cpu_hwcaps st)) ?pre)
                 @ [Read_cpuid (the (switch_on cfg (sys_reg (hd ?post)) raw_read_cases))]
                 @ parking_log cfg c (hd ?post)\<rparr>)"
    by (simp add: verify_capabilities_def fail_incapable_cpu_state emit_def)
next
  show "filter is_enable_call
             (concat (map (first_pass_log cfg (cpu_hwcaps st))
                     (takeWhile (\<lambda>e. \<not> mismatch cfg c (cpu_hwcaps st) e) es))
              @ [Read_cpuid (the (switch_on cfg
                      (sys_reg (hd (dropWhile (\<lambda>e. \<not> mismatch cfg c (cpu_hwcaps st) e) es)))
                      raw_read_cases))]
              @ parking_log cfg c
                     (hd (dropWhile (\<lambda>e. \<not> mismatch cfg c (cpu_hwcaps st) e) es))) =
             map (\<lambda>e. Enable_arg (the (enable e)) e)
               (filter (\<lambda>e. sys_reg e \<noteq> 0 \<and> capability e \<in> cpu_hwcaps st \<and> enable e \<noteq> None)
                  (takeWhile (\<lambda>e. \<not> mismatch cfg c (cpu_hwcaps st) e) es))"
    by (simp add: first_pass_enable_calls parking_log_no_enable)
qed

theorem verify_parks_at_first_mismatch_witness:
  "sys_caps_initialised frozen_state
   \<and> matches pan_verified \<noteq> None \<and> matches gic_verified \<noteq> None \<and> matches pan_entry \<noteq> None
   \<and> sys_reg pan_verified \<in> enumerated_ids example_config
   \<and> sys_reg gic_verified \<in> enumerated_ids example_config
   \<and> sys_reg pan_entry = 0
   \<and> \<not> mismatch example_config weak_core (cpu_hwcaps frozen_state) pan_verified
   \<and> mismatch example_config weak_core (cpu_hwcaps frozen_state) gic_verified
   \<and> verify_capabilities example_config weak_core (verified_table @ [zero_entry]) frozen_state =
       (Parked,
        frozen_state\<lparr>cpu_present_mask := {0, 1, 3},
          klog :=
            [Read_cpuid ID_AA64MMFR1_EL1, Enable_arg PTR_cpu_enable_pan pan_verified,
             Read_cpuid ID_AA64PFR0_EL1,
             Pr_crit 2 ''arm64_features'' (Some ''GIC system register CPU interface''),
             Set_cpu_present 2 False, Cpu_die 2]\<rparr>)"
proof -
  have flag: "sys_caps_initialised frozen_state" by (simp add: example_states)
  have entries: "\<forall>e \<in> set verified_table. matches e \<noteq> None"
    by (simp add: verified_table_def verified_fields example_fields)
  have known: "sys_reg pan_verified \<in> enumerated_ids example_config"
    "sys_reg gic_verified \<in> enumerated_ids example_config"
    using example_switch(1,2) switch_on_enumerated [of example_config "0x180720"]
      switch_on_enumerated [of example_config "0x180400"]
    by (simp_all add: verified_fields)
  have ids: "\<forall>e \<in> set verified_table. sys_reg e \<noteq> 0 \<longrightarrow> sys_reg e \<in> enumerated_ids example_config"
    using known by (simp add: verified_table_def example_fields)
  have good: "\<not> mismatch example_config weak_core (cpu_hwcaps frozen_state) pan_verified"
    by (simp add: mismatch_def example_local_match)
  have bad: "mismatch example_config weak_core (cpu_hwcaps frozen_state) gic_verified"
    by (simp add: mismatch_def must_verify_def example_local_match example_states
        verified_fields)
  then have some: "\<exists>e \<in> set verified_table. mismatch example_config weak_core (cpu_hwcaps frozen_state) e"
    by (simp add: verified_table_def)
  have mask: "cpu_present_mask frozen_state - {2} = {0, 1, 3}"
    by (auto simp: example_states)
  from verify_parks_at_first_mismatch [OF flag entries ids some] good bad known mask
  show ?thesis
    by (simp add: verified_table_def verified_fields example_fields example_states
        first_pass_log_def must_verify_def example_switch parking_log_def example_platform)
qed

text \<open>
  C10: no entry of \<open>arm64_features\<close> sets \<open>sys_reg\<close>. So \<open>verify_local_cpu_capabilities\<close>
  returns on every core and in every state, whatever the registers of the core hold.
  It reads no register, prints nothing and parks no core; the only thing it does, once
  \<open>sys_caps_initialised\<close> is set, is the call of the second pass without argument for
  the one entry that has an enable callback, when the table is built with it and its
  capability is in the Capability Set.
\<close>

theorem verify_local_never_verifies:
  "(\<forall>e \<in> set (arm64_features cfg). sys_reg e = 0)
   \<and> verify_local_cpu_capabilities cfg c st =
       (Returned,
        if sys_caps_initialised st \<and> CONFIG_ARM64_PAN cfg \<and> ARM64_HAS_PAN cfg \<in> cpu_hwcaps st
        then emit (Enable_noarg PTR_cpu_enable_pan) st else st)"
  by (simp add: arm64_features_no_sys_reg)
     (simp add: verify_local_cpu_capabilities_def verify_capabilities_def arm64_features_def
        zero_entry_def cpus_have_cap_def)

theorem verify_local_never_verifies_witness:
  "list_all (\<lambda>e. sys_reg e = 0) (arm64_features example_config)
   \<and> ARM64_HAS_SYSREG_GIC_CPUIF example_config \<in> cpu_hwcaps frozen_state
   \<and> \<not> detected example_config weak_core gic_entry
   \<and> verify_local_cpu_capabilities example_config weak_core frozen_state =
       (Returned, frozen_state\<lparr>klog := [Enable_noarg PTR_cpu_enable_pan]\<rparr>)"
proof -
  have "sys_caps_initialised frozen_state \<and> CONFIG_ARM64_PAN example_config
      \<and> ARM64_HAS_PAN example_config \<in> cpu_hwcaps frozen_state"
    by (simp add: example_states example_platform)
  moreover have "ARM64_HAS_SYSREG_GIC_CPUIF example_config \<in> cpu_hwcaps frozen_state"
    by (simp add: example_states example_platform)
  ultimately show ?thesis
    using verify_local_never_verifies [of example_config weak_core frozen_state]
    by (simp add: list_all_iff example_detected emit_def example_states)
qed

subsection \<open>The Capability Set only grows\<close>

lemma check_hwcaps_mono:
  "cpu_hwcaps st \<subseteq> cpu_hwcaps (snd (check_cpu_capabilities cfg c caps info st))"
proof (induction caps arbitrary: st)
  case Nil
  then show ?case by simp
next
  case (Cons e caps)
  show ?case
  proof (cases "desc e = None \<or> matches e = None")
    case True
    then show ?thesis by (auto split: option.splits)
  next
    case False
    then obtain d m where d: "desc e = Some d" and m: "matches e = Some m" by auto
    have "cpu_hwcaps st \<subseteq> cpu_hwcaps (check_entry cfg c info e st)"
      by (auto simp: check_entry_fields)
    also have "\<dots> \<subseteq> cpu_hwcaps (snd (check_cpu_capabilities cfg c caps info
        (check_entry cfg c info e st)))"
      by (rule Cons.IH)
    finally show ?thesis by (simp only: check_step [OF d m])
  qed
qed

lemma enable_hwcaps_same:
  "cpu_hwcaps (snd (enable_cpu_capabilities caps st)) = cpu_hwcaps st"
  by (induction caps arbitrary: st) (auto simp: on_each_cpu_def emit_def split: option.splits)

lemma raw_read_hwcaps:
  "cpu_hwcaps (snd (raw_read_system_reg cfg c sys_id st)) = cpu_hwcaps st"
  by (simp add: raw_read_system_reg_def read_cpuid_def emit_def split: option.splits)

lemma first_pass_hwcaps_same:
  "cpu_hwcaps (snd (verify_first_pass cfg c caps st)) = cpu_hwcaps st"
proof (induction caps arbitrary: st)
  case Nil
  then show ?case by simp
next
  case (Cons e caps)
  obtain res st1 where rr: "raw_read_system_reg cfg c (sys_reg e) st = (res, st1)"
    by (cases "raw_read_system_reg cfg c (sys_reg e) st")
  with raw_read_hwcaps [of cfg c "sys_reg e" st] have "cpu_hwcaps st1 = cpu_hwcaps st" by simp
  with Cons rr show ?case
    by (auto simp: fail_incapable_cpu_state emit_def split: sum.splits option.splits)
qed

lemma second_pass_hwcaps_same:
  "cpu_hwcaps (snd (verify_second_pass caps st)) = cpu_hwcaps st"
  by (induction caps arbitrary: st) (auto simp: emit_def split: option.splits)

lemma verify_capabilities_hwcaps_same:
  "cpu_hwcaps (snd (verify_capabilities cfg c caps st)) = cpu_hwcaps st"
proof -
  obtain out st1 where p1: "verify_first_pass cfg c caps st = (out, st1)"
    by (cases "verify_first_pass cfg c caps st")
  with first_pass_hwcaps_same [of cfg c caps st] have "cpu_hwcaps st1 = cpu_hwcaps st" by simp
  with p1 second_pass_hwcaps_same [of caps st1] show ?thesis
    by (cases out) (simp_all add: verify_capabilities_def)
qed

lemma run_operation_mono:
  "cpu_hwcaps st \<subseteq> cpu_hwcaps (snd (run_operation cfg c op st))"
  by (cases op)
     (simp_all add: check_hwcaps_mono enable_hwcaps_same set_sys_caps_initialised_def
        verify_local_cpu_capabilities_def verify_capabilities_hwcaps_same)

lemma run_operation_same:
  "\<not> is_check op \<Longrightarrow> cpu_hwcaps (snd (run_operation cfg c op st)) = cpu_hwcaps st"
  by (cases op)
     (simp_all add: enable_hwcaps_same set_sys_caps_initialised_def
        verify_local_cpu_capabilities_def verify_capabilities_hwcaps_same)

lemma run_operations_mono:
  "cpu_hwcaps st \<subseteq> cpu_hwcaps (snd (run_operations cfg ops st))"
proof (induction ops arbitrary: st)
  case Nil
  then show ?case by simp
next
  case (Cons p ops)
  obtain c op where p: "p = (c, op)" by (cases p)
  obtain out st1 where r: "run_operation cfg c op st = (out, st1)"
    by (cases "run_operation cfg c op st")
  with run_operation_mono [of st cfg c op] have "cpu_hwcaps st \<subseteq> cpu_hwcaps st1" by simp
  with Cons.IH [of st1] p r show ?case
    by (cases out) auto
qed

lemma run_operations_same:
  "\<forall>(c, op) \<in> set ops. \<not> is_check op \<Longrightarrow>
     cpu_hwcaps (snd (run_operations cfg ops st)) = cpu_hwcaps st"
proof (induction ops arbitrary: st)
  case Nil
  then show ?case by simp
next
  case (Cons p ops)
  obtain c op where p: "p = (c, op)" by (cases p)
  obtain out st1 where r: "run_operation cfg c op st = (out, st1)"
    by (cases "run_operation cfg c op st")
  from Cons.prems p have "\<not> is_check op" by simp
  with run_operation_same [of op cfg c st] r have "cpu_hwcaps st1 = cpu_hwcaps st" by simp
  moreover from Cons.prems have "\<forall>(c, op) \<in> set ops. \<not> is_check op" by simp
  ultimately show ?case
    using Cons.IH [of st1] p r by (cases out) auto
qed

text \<open>
  C8: over any sequence of detection, enabling, raising of the flag and verification,
  run on any cores, every capability in the Capability Set at the start is in it at the
  end. A sequence without a detection leaves the set as it was; so do
  \<open>enable_cpu_capabilities\<close> and the verification, on any table and also when the core
  is parked.
\<close>

theorem capability_set_monotone:
  "cpu_hwcaps st \<subseteq> cpu_hwcaps (snd (run_operations cfg ops st))
   \<and> ((\<forall>(c, op) \<in> set ops. \<not> is_check op) \<longrightarrow>
        cpu_hwcaps (snd (run_operations cfg ops st)) = cpu_hwcaps st)
   \<and> cpu_hwcaps (snd (enable_cpu_capabilities caps st)) = cpu_hwcaps st
   \<and> cpu_hwcaps (snd (verify_capabilities cfg c caps st)) = cpu_hwcaps st
   \<and> cpu_hwcaps (snd (verify_local_cpu_capabilities cfg c st)) = cpu_hwcaps st"
  by (simp add: run_operations_mono run_operations_same enable_hwcaps_same
      verify_capabilities_hwcaps_same verify_local_cpu_capabilities_def)

theorem capability_set_monotone_witness:
  "cpu_hwcaps (snd (run_operations example_config
       [(full_core, Op_check (arm64_features example_config) ''detected feature''),
        (full_core, Op_enable (arm64_features example_config)),
        (full_core, Op_set_sys_caps_initialised),
        (weak_core, Op_verify)] boot_state)) = {3, 4}
   \<and> \<not> is_check (Op_enable (arm64_features example_config)) \<and> \<not> is_check Op_verify
   \<and> cpu_hwcaps (snd (run_operations example_config
       [(full_core, Op_enable (arm64_features example_config)), (weak_core, Op_verify)]
       frozen_state)) = cpu_hwcaps frozen_state
   \<and> fst (verify_capabilities example_config weak_core (verified_table @ [zero_entry])
            frozen_state) = Parked
   \<and> cpu_hwcaps (snd (verify_capabilities example_config weak_core
            (verified_table @ [zero_entry]) frozen_state)) = {3, 4}"
proof -
  let ?boot = "[(full_core, Op_check (arm64_features example_config) ''detected feature''),
        (full_core, Op_enable (arm64_features example_config)),
        (full_core, Op_set_sys_caps_initialised),
        (weak_core, Op_verify)]"
  let ?later = "[(full_core, Op_enable (arm64_features example_config)), (weak_core, Op_verify)]"
  have run: "cpu_hwcaps (snd (run_operations example_config ?boot boot_state)) = {3, 4}"
    by code_simp
  have parked: "fst (verify_capabilities example_config weak_core
      (verified_table @ [zero_entry]) frozen_state) = Parked"
    by code_simp
  have nocheck: "\<forall>(c, op) \<in> set ?later. \<not> is_check op" by simp
  from run parked nocheck
    capability_set_monotone [of boot_state example_config ?boot "verified_table @ [zero_entry]"
      weak_core]
    capability_set_monotone [of frozen_state example_config ?later
      "verified_table @ [zero_entry]" weak_core]
  show ?thesis
    by (simp add: example_states del: run_operations.simps)
qed


end
